theory Spec2Isabelle
  imports Main "HOL-Library.Word"
begin

unbundle bit_operations_syntax

section \<open>mkboot.py: building an eGON.BT0 boot image\<close>

text \<open>
  The script reads a raw binary, puts a 32-byte eGON.BT0 header and 16 bytes of
  \<open>0xFF\<close> in front of it, pads the result with zero bytes to a multiple of 512,
  sums the image as little-endian 32-bit words, stores the sum in the header and
  writes the image to the output file.

  Python's \<open>bytes\<close> and \<open>bytearray\<close> are lists of 8-bit words, Python's
  integers are \<open>int\<close>, and every exception the script can raise is a value of
  the type \<open>error\<close>.
\<close>

subsection \<open>Bytes, slices and \<open>struct\<close>\<close>

type_synonym byte = "8 word"

datatype error =
    StructError        \<comment> \<open>\<open>struct.error\<close>: value out of range, or buffer of the wrong size\<close>
  | FileNotFoundError  \<comment> \<open>\<open>open(path, 'rb')\<close> on a path that does not exist\<close>
  | PermissionError    \<comment> \<open>\<open>open\<close> on a path the process may not open\<close>
  | IsADirectoryError  \<comment> \<open>\<open>open\<close> on a directory\<close>
  | OSError            \<comment> \<open>a write that fails, as on a full device\<close>
  | SystemExit int     \<comment> \<open>\<open>sys.exit(n)\<close>\<close>

text \<open>\<open>xs[i:j]\<close> for indices that are not negative: both ends are clamped to the length.\<close>

definition get_slice :: "'a list \<Rightarrow> nat \<Rightarrow> nat \<Rightarrow> 'a list" where
  "get_slice xs i j = take (j - i) (drop i xs)"

text \<open>
  \<open>xs[i:j] = ys\<close> on a \<open>bytearray\<close>, for indices that are not negative: the
  slice is replaced by \<open>ys\<close>, whatever the length of \<open>ys\<close>.
\<close>

definition set_slice :: "'a list \<Rightarrow> nat \<Rightarrow> nat \<Rightarrow> 'a list \<Rightarrow> 'a list" where
  "set_slice xs i j ys = take i xs @ ys @ drop (max i j) xs"

text \<open>\<open>b * n\<close> for a bytes object of one byte: empty when \<open>n\<close> is not positive.\<close>

definition bytes_mul :: "byte \<Rightarrow> int \<Rightarrow> byte list" where
  "bytes_mul b n = replicate (nat n) b"

text \<open>\<open>struct.pack('<I', v)\<close>: raises \<open>struct.error\<close> unless \<open>0 <= v < 2**32\<close>.\<close>

definition pack_I :: "int \<Rightarrow> error + byte list" where
  "pack_I v =
     (if 0 \<le> v \<and> v < 2 ^ 32
      then Inr [word_of_int v, word_of_int (drop_bit 8 v),
                word_of_int (drop_bit 16 v), word_of_int (drop_bit 24 v)]
      else Inl StructError)"

text \<open>\<open>struct.unpack('<I', bs)[0]\<close>: raises \<open>struct.error\<close> unless \<open>len(bs) == 4\<close>.\<close>

definition unpack_I :: "byte list \<Rightarrow> error + int" where
  "unpack_I bs =
     (case bs of
        [b0, b1, b2, b3] \<Rightarrow>
          Inr (uint b0 + 256 * uint b1 + 65536 * uint b2 + 16777216 * uint b3)
      | _ \<Rightarrow> Inl StructError)"

subsection \<open>Constants\<close>

definition HEADER_SIZE :: int where
  "HEADER_SIZE = 32"

definition CODE_START_OFFSET :: int where
  "CODE_START_OFFSET = 0x30"

text \<open>The bytes literal \<open>b'eGON.BT0'\<close>.\<close>

definition magic :: "byte list" where
  "magic = map of_char ''eGON.BT0''"

subsection \<open>Layout (lines 28 to 33)\<close>

definition padding_size :: int where
  "padding_size = CODE_START_OFFSET - HEADER_SIZE"

definition total_size :: "byte list \<Rightarrow> int" where
  "total_size code = CODE_START_OFFSET + int (length code)"

definition aligned_size :: "byte list \<Rightarrow> int" where
  "aligned_size code = (total_size code + 511) AND NOT 511"

definition tail_padding :: "byte list \<Rightarrow> int" where
  "tail_padding code = aligned_size code - total_size code"

subsection \<open>Header (lines 37 to 56)\<close>

definition jump_offset :: int where
  "jump_offset = (CODE_START_OFFSET div 4) - 2"

text \<open>
  The header starts as \<open>bytearray(HEADER_SIZE)\<close>, 32 zero bytes, and is filled by
  five slice assignments; each \<open>struct.pack\<close> may raise.
\<close>

definition make_header :: "int \<Rightarrow> error + byte list" where
  "make_header asize =
     (let header = replicate (nat HEADER_SIZE) (0 :: byte) in
      case pack_I (0xEA000000 OR (jump_offset AND 0x00FFFFFF)) of
        Inl e \<Rightarrow> Inl e
      | Inr branch \<Rightarrow>
     (let header = set_slice header 0 4 branch;
          header = set_slice header 4 12 magic in
      case pack_I 0x5F0A6C39 of
        Inl e \<Rightarrow> Inl e
      | Inr placeholder \<Rightarrow>
     (let header = set_slice header 12 16 placeholder in
      case pack_I asize of
        Inl e \<Rightarrow> Inl e
      | Inr len_field \<Rightarrow>
     (let header = set_slice header 16 20 len_field in
      case pack_I HEADER_SIZE of
        Inl e \<Rightarrow> Inl e
      | Inr pub_head_size \<Rightarrow> Inr (set_slice header 20 24 pub_head_size)))))"

subsection \<open>Assembly (lines 61 to 64)\<close>

text \<open>The image before the checksum is written back.\<close>

definition assemble_image :: "byte list \<Rightarrow> error + byte list" where
  "assemble_image code =
     (case make_header (aligned_size code) of
        Inl e \<Rightarrow> Inl e
      | Inr header \<Rightarrow>
          (let padding = bytes_mul 0xFF padding_size;
               tail = bytes_mul 0x00 (tail_padding code)
           in Inr (header @ padding @ code @ tail)))"

subsection \<open>Checksum (lines 68 to 76)\<close>

text \<open>
  The loop \<open>for i in range(0, len(image), 4)\<close>, started at index \<open>i\<close> with the
  running sum \<open>checksum\<close>. The sum is a Python integer and does not wrap here.
\<close>

function checksum_loop :: "byte list \<Rightarrow> nat \<Rightarrow> int \<Rightarrow> error + int" where
  "checksum_loop img i checksum =
     (if i < length img
      then (case unpack_I (get_slice img i (i + 4)) of
              Inl e \<Rightarrow> Inl e
            | Inr word \<Rightarrow> checksum_loop img (i + 4) (checksum + word))
      else Inr checksum)"
  by pat_completeness auto
termination
  by (relation "measure (\<lambda>(img, i, checksum). length img - i)") auto

declare checksum_loop.simps [simp del]

text \<open>
  The pure part of \<open>make_boot0\<close>: from the bytes read to the bytes written,
  together with the checksum that is printed.
\<close>

definition boot0_image :: "byte list \<Rightarrow> error + (byte list \<times> int)" where
  "boot0_image code =
     (case assemble_image code of
        Inl e \<Rightarrow> Inl e
      | Inr img \<Rightarrow>
          (case checksum_loop img 0 0 of
             Inl e \<Rightarrow> Inl e
           | Inr s \<Rightarrow>
               (let checksum = s AND 0xFFFFFFFF in
                case pack_I checksum of
                  Inl e \<Rightarrow> Inl e
                | Inr field \<Rightarrow> Inr (set_slice img 12 16 field, checksum))))"

subsection \<open>Formatted output\<close>

text \<open>The decimal digits of a natural number, as \<open>str\<close> prints them.\<close>

function dec_digits :: "nat \<Rightarrow> string" where
  "dec_digits n =
     (if n < 10 then [''0123456789'' ! n]
      else dec_digits (n div 10) @ [''0123456789'' ! (n mod 10)])"
  by pat_completeness auto
termination
  by (relation "measure id") auto

declare dec_digits.simps [simp del]

function hex_digits :: "nat \<Rightarrow> string" where
  "hex_digits n =
     (if n < 16 then [''0123456789ABCDEF'' ! n]
      else hex_digits (n div 16) @ [''0123456789ABCDEF'' ! (n mod 16)])"
  by pat_completeness auto
termination
  by (relation "measure id") auto

declare hex_digits.simps [simp del]

text \<open>\<open>f"{n}"\<close> for an integer.\<close>

definition format_d :: "int \<Rightarrow> string" where
  "format_d n = (if n < 0 then ''-'' @ dec_digits (nat (- n)) else dec_digits (nat n))"

text \<open>\<open>f"{n:0wX}"\<close>: upper-case hexadecimal, padded with zeros after the sign to width \<open>w\<close>.\<close>

definition format_0X :: "nat \<Rightarrow> int \<Rightarrow> string" where
  "format_0X w n =
     (let sign = (if n < 0 then ''-'' else []);
          ds = hex_digits (nat \<bar>n\<bar>)
      in sign @ replicate (w - length sign - length ds) (CHR ''0'') @ ds)"

subsection \<open>Files and standard output\<close>

text \<open>
  What the script can see and change:
  \<^item> \<open>files\<close>: the contents of the files, by path; a path without contents does
    not exist, and \<open>open(path, 'rb')\<close> on it raises \<open>FileNotFoundError\<close>;
  \<^item> \<open>open_wb\<close>: the exception \<open>open(path, 'wb')\<close> raises, if any (the
    directory is missing, the path is a directory, the process may not write there);
  \<^item> \<open>write_space\<close>: the number of bytes that can be written to a path before the
    write fails, if there is such a limit; a failed write leaves the bytes written so far;
  \<^item> \<open>stdout\<close>: the lines that \<open>print\<close> has sent to standard output, which is
    buffered;
  \<^item> \<open>stdout_flushes\<close>: whether the buffer can be flushed when the interpreter
    exits (it cannot when standard output is a closed pipe or a full device).
\<close>

record world =
  files :: "string \<rightharpoonup> byte list"
  open_wb :: "string \<Rightarrow> error option"
  write_space :: "string \<Rightarrow> nat option"
  stdout :: "string list"
  stdout_flushes :: bool

text \<open>
  \<open>f.write(image)\<close> on a file just opened with \<open>'wb'\<close>: opening has emptied the
  file, and the write stores the image, or the part of it there is space for.
\<close>

definition write_file :: "string \<Rightarrow> byte list \<Rightarrow> world \<Rightarrow> (error + unit) \<times> world" where
  "write_file path bs w =
     (case write_space w path of
        None \<Rightarrow> (Inr (), w\<lparr>files := (files w)(path \<mapsto> bs)\<rparr>)
      | Some k \<Rightarrow>
          if length bs \<le> k then (Inr (), w\<lparr>files := (files w)(path \<mapsto> bs)\<rparr>)
          else (Inl OSError, w\<lparr>files := (files w)(path \<mapsto> take k bs)\<rparr>))"

text \<open>
  \<open>make_boot0\<close> (lines 22 to 85). An exception before the output is opened leaves
  the world as it was: the input is only read, and nothing is printed before the output
  is written.
\<close>

definition make_boot0 :: "string \<Rightarrow> string \<Rightarrow> world \<Rightarrow> (error + unit) \<times> world" where
  "make_boot0 bin_file output_file w =
     (case files w bin_file of
        None \<Rightarrow> (Inl FileNotFoundError, w)
      | Some code \<Rightarrow>
          (case boot0_image code of
             Inl e \<Rightarrow> (Inl e, w)
           | Inr (img, checksum) \<Rightarrow>
               (case open_wb w output_file of
                  Some e \<Rightarrow> (Inl e, w)
                | None \<Rightarrow>
                    (case write_file output_file img w of
                       (Inl e, w') \<Rightarrow> (Inl e, w')
                     | (Inr _, w') \<Rightarrow>
                         (Inr (),
                          w'\<lparr>stdout := stdout w' @
                            [''Created '' @ output_file,
                             ''  Code size: '' @ format_d (int (length code)) @ '' bytes'',
                             ''  Total size: '' @ format_d (int (length img))
                                @ '' bytes (aligned to 512)'',
                             ''  Code starts at: 0x'' @ format_0X 2 CODE_START_OFFSET,
                             ''  Checksum: 0x'' @ format_0X 8 checksum]\<rparr>)))))"

text \<open>
  The script body (lines 87 to 95). \<open>sys.argv\<close> is the program name followed by
  the positional arguments.
\<close>

definition usage :: "string \<Rightarrow> string list" where
  "usage prog =
     [''Usage: '' @ prog @ '' <input.bin> <output.bin>'',
      [],
      ''Creates a bootable image for F1C100S SPI flash or SD card'',
      ''by adding an eGON.BT0 header to the input binary.'']"

definition main :: "string \<Rightarrow> string list \<Rightarrow> world \<Rightarrow> (error + unit) \<times> world" where
  "main prog args w =
     (let argv = prog # args in
      if length argv \<noteq> 3
      then (Inl (SystemExit 1), w\<lparr>stdout := stdout w @ usage (argv ! 0)\<rparr>)
      else make_boot0 (argv ! 1) (argv ! 2) w)"

text \<open>
  The exit status of the process that started in the world \<open>w\<close> and ended with the
  given result and world. The interpreter flushes standard output when it exits; if
  the run has printed something and the flush fails, the status is 120 whatever the
  script asked for. Otherwise it is 0 when the script runs to its end, the argument of
  \<open>sys.exit\<close>, and 1 for an exception that nothing catches.
\<close>

definition exit_status :: "world \<Rightarrow> (error + unit) \<times> world \<Rightarrow> int" where
  "exit_status w outcome =
     (case outcome of
        (r, w') \<Rightarrow>
          if stdout w' \<noteq> stdout w \<and> \<not> stdout_flushes w' then 120
          else (case r of Inr _ \<Rightarrow> 0 | Inl (SystemExit n) \<Rightarrow> n | Inl _ \<Rightarrow> 1))"

subsection \<open>Words in little-endian order, as the format describes them\<close>

text \<open>
  The image read as 32-bit little-endian words, four bytes at a time; bytes left
  over at the end, fewer than four, are not a word.
\<close>

fun le32_words :: "byte list \<Rightarrow> int list" where
  "le32_words (b0 # b1 # b2 # b3 # rest) =
     (uint b0 + 256 * uint b1 + 65536 * uint b2 + 16777216 * uint b3) # le32_words rest"
| "le32_words _ = []"

text \<open>The sum of the words of an image, modulo \<open>2 ^ 32\<close>.\<close>

definition le32_sum :: "byte list \<Rightarrow> int" where
  "le32_sum bs = sum_list (le32_words bs) mod 2 ^ 32"

subsection \<open>A worked input\<close>

text \<open>
  The image assembled from the one-byte input \<open>0x11\<close>, and the image written for it:
  they differ in the checksum field, bytes 12 to 16.
\<close>

abbreviation example_assembled :: "byte list" where
  "example_assembled \<equiv>
     [0x0A, 0, 0, 0xEA, 0x65, 0x47, 0x4F, 0x4E, 0x2E, 0x42, 0x54, 0x30,
      0x39, 0x6C, 0x0A, 0x5F, 0, 2, 0, 0, 32, 0, 0, 0,
      0, 0, 0, 0, 0, 0, 0, 0,
      0xFF, 0xFF, 0xFF, 0xFF, 0xFF, 0xFF, 0xFF, 0xFF,
      0xFF, 0xFF, 0xFF, 0xFF, 0xFF, 0xFF, 0xFF, 0xFF,
      0x11, 0, 0, 0] @ replicate 460 0"

abbreviation example_output :: "byte list" where
  "example_output \<equiv>
     [0x0A, 0, 0, 0xEA, 0x65, 0x47, 0x4F, 0x4E, 0x2E, 0x42, 0x54, 0x30,
      0x03, 0xF8, 0xAD, 0xC7, 0, 2, 0, 0, 32, 0, 0, 0,
      0, 0, 0, 0, 0, 0, 0, 0,
      0xFF, 0xFF, 0xFF, 0xFF, 0xFF, 0xFF, 0xFF, 0xFF,
      0xFF, 0xFF, 0xFF, 0xFF, 0xFF, 0xFF, 0xFF, 0xFF,
      0x11, 0, 0, 0] @ replicate 460 0"

section \<open>Auxiliary facts\<close>

subsection \<open>Alignment and packing\<close>

lemma and_not_511: "(x::int) AND NOT 511 = 512 * (x div 512)"
proof -
  have "(511::int) = mask 9" by (simp add: mask_eq_exp_minus_1)
  then have "x AND NOT 511 = x AND NOT (mask 9)" by simp
  also have "\<dots> = push_bit 9 (drop_bit 9 x)"
    by (rule bit_eqI) (auto simp: bit_simps)
  also have "\<dots> = 512 * (x div 512)"
    by (simp add: push_bit_eq_mult drop_bit_eq_div)
  finally show ?thesis .
qed

lemma aligned_size_eq: "aligned_size code = 512 * ((total_size code + 511) div 512)"
  by (simp only: aligned_size_def and_not_511)

lemma aligned_size_ge: "total_size code \<le> aligned_size code"
  unfolding aligned_size_eq by linarith

lemma aligned_size_lt: "aligned_size code < total_size code + 512"
  unfolding aligned_size_eq by linarith

lemma total_size_pos: "48 \<le> total_size code"
  by (simp add: total_size_def CODE_START_OFFSET_def)

lemma pack_I_length: "pack_I v = Inr bs \<Longrightarrow> length bs = 4"
  by (auto simp: pack_I_def split: if_splits)

lemma pack_branch: "pack_I (0xEA000000 OR (jump_offset AND 0x00FFFFFF)) = Inr [0x0A, 0, 0, 0xEA]"
  by (simp add: pack_I_def jump_offset_def CODE_START_OFFSET_def drop_bit_eq_div)

lemma pack_placeholder: "pack_I 0x5F0A6C39 = Inr [0x39, 0x6C, 0x0A, 0x5F]"
  by (simp add: pack_I_def drop_bit_eq_div)

lemma pack_header_size: "pack_I HEADER_SIZE = Inr [32, 0, 0, 0]"
  by (simp add: pack_I_def HEADER_SIZE_def drop_bit_eq_div)

lemma magic_bytes: "magic = [0x65, 0x47, 0x4F, 0x4E, 0x2E, 0x42, 0x54, 0x30]"
  by (simp add: magic_def)

lemma replicate_32: "replicate 32 x = [x,x,x,x,x,x,x,x,x,x,x,x,x,x,x,x,x,x,x,x,x,x,x,x,x,x,x,x,x,x,x,x]"
  by (simp add: numeral_eq_Suc)

lemma make_header_Inr:
  assumes "pack_I asize = Inr [l0, l1, l2, l3]"
  shows "make_header asize =
    Inr ([0x0A, 0, 0, 0xEA] @ magic @ [0x39, 0x6C, 0x0A, 0x5F] @ [l0, l1, l2, l3]
          @ [32, 0, 0, 0] @ [0, 0, 0, 0, 0, 0, 0, 0])"
  by (simp add: make_header_def pack_branch pack_placeholder pack_header_size assms
      HEADER_SIZE_def [symmetric] Let_def)
     (simp add: HEADER_SIZE_def set_slice_def magic_bytes replicate_32)

lemma make_header_Inl:
  "pack_I asize = Inl e \<Longrightarrow> make_header asize = Inl e"
  by (simp add: make_header_def pack_branch pack_placeholder)

lemma and_mask32: "(x::int) AND 0xFFFFFFFF = x mod 2 ^ 32"
proof -
  have "(0xFFFFFFFF::int) = mask 32" by (simp add: mask_eq_exp_minus_1)
  then have "x AND 0xFFFFFFFF = x AND mask 32" by simp
  also have "\<dots> = x mod 2 ^ 32"
    by (simp only: take_bit_eq_mask [symmetric] take_bit_eq_mod)
  finally show ?thesis .
qed



lemma pack_I_shape: "pack_I v = Inr bs \<Longrightarrow> \<exists>l0 l1 l2 l3. bs = [l0, l1, l2, l3]"
  by (auto simp: pack_I_def split: if_splits)

lemma pack_I_Inl: "pack_I v = Inl e \<Longrightarrow> e = StructError \<and> \<not> (0 \<le> v \<and> v < 2 ^ 32)"
  by (auto simp: pack_I_def split: if_splits)

lemma pack_I_Inr_iff: "(\<exists>bs. pack_I v = Inr bs) \<longleftrightarrow> 0 \<le> v \<and> v < 2 ^ 32"
  by (auto simp: pack_I_def)

lemma assemble_image_Inr:
  assumes "assemble_image code = Inr img"
  shows "\<exists>lf. pack_I (aligned_size code) = Inr lf \<and>
     img = [0x0A, 0, 0, 0xEA] @ magic @ [0x39, 0x6C, 0x0A, 0x5F] @ lf @ [32, 0, 0, 0]
           @ replicate 8 0 @ replicate 16 0xFF @ code
           @ replicate (nat (tail_padding code)) 0"
proof (cases "pack_I (aligned_size code)")
  case (Inl e)
  then show ?thesis
    using assms by (simp add: assemble_image_def make_header_Inl)
next
  case (Inr lf)
  then obtain l0 l1 l2 l3 where lf: "lf = [l0, l1, l2, l3]"
    using pack_I_shape by blast
  have "replicate 8 (0::byte) = [0,0,0,0,0,0,0,0]"
    by (simp add: numeral_eq_Suc)
  then show ?thesis
    using assms Inr unfolding lf
    by (auto simp: assemble_image_def make_header_Inr bytes_mul_def padding_size_def
        CODE_START_OFFSET_def HEADER_SIZE_def)
qed

lemma assemble_image_length:
  assumes "assemble_image code = Inr img"
  shows "int (length img) = aligned_size code"
proof -
  obtain lf where lf: "pack_I (aligned_size code) = Inr lf" and
    img: "img = [0x0A, 0, 0, 0xEA] @ magic @ [0x39, 0x6C, 0x0A, 0x5F] @ lf @ [32, 0, 0, 0]
           @ replicate 8 0 @ replicate 16 0xFF @ code
           @ replicate (nat (tail_padding code)) 0"
    using assemble_image_Inr [OF assms] by blast
  have "length lf = 4" using lf by (rule pack_I_length)
  moreover have "0 \<le> tail_padding code"
    using aligned_size_ge [of code] by (simp add: tail_padding_def)
  ultimately show ?thesis
    unfolding img
    by (simp add: magic_bytes tail_padding_def total_size_def CODE_START_OFFSET_def)
qed

lemma aligned_size_dvd: "512 dvd aligned_size code"
  by (simp add: aligned_size_eq)

lemma aligned_size_pos: "0 < aligned_size code"
  using aligned_size_ge [of code] total_size_pos [of code] by linarith

lemma le32_words_step:
  assumes "i + 4 \<le> length img"
  shows "\<exists>w. unpack_I (get_slice img i (i + 4)) = Inr w \<and>
             le32_words (drop i img) = w # le32_words (drop (i + 4) img)"
proof -
  from assms obtain b0 b1 b2 b3 rest where d: "drop i img = b0 # b1 # b2 # b3 # rest"
    by (metis (no_types, opaque_lifting) Cons_nth_drop_Suc Suc_le_eq add_Suc_right 
        add_lessD1 less_add_Suc1 numeral_Bit0 numeral_One  one_add_one  add.commute less_le_trans plus_1_eq_Suc)
  have "drop (i + 4) img = drop 4 (drop i img)" by (simp add: add.commute)
  then have "drop (i + 4) img = rest" by (simp add: d)
  then show ?thesis
    by (simp add: get_slice_def d unpack_I_def)
qed

subsection \<open>The checksum loop and the pure builder\<close>

lemma checksum_loop_sum:
  "4 dvd (length img - i) \<Longrightarrow>
     checksum_loop img i acc = Inr (acc + sum_list (le32_words (drop i img)))"
proof (induction img i acc rule: checksum_loop.induct)
  case (1 img i acc)
  show ?case
  proof (cases "i < length img")
    case False
    then show ?thesis
      by (simp add: checksum_loop.simps [of img i acc])
  next
    case True
    with "1.prems" have le: "i + 4 \<le> length img"
      by presburger
    then obtain w where w: "unpack_I (get_slice img i (i + 4)) = Inr w"
      and ws: "le32_words (drop i img) = w # le32_words (drop (i + 4) img)"
      using le32_words_step by blast
    have "4 dvd (length img - (i + 4))"
      using "1.prems" le by presburger
    with "1.IH" [OF True w] have
      "checksum_loop img (i + 4) (acc + w) = Inr (acc + w + sum_list (le32_words (drop (i + 4) img)))"
      by simp
    then show ?thesis
      using True w ws by (simp add: checksum_loop.simps [of img i acc])
  qed
qed

lemma assemble_image_dvd4:
  assumes "assemble_image code = Inr img"
  shows "4 dvd length img"
proof -
  have "512 dvd int (length img)"
    using assemble_image_length [OF assms] aligned_size_dvd [of code] by simp
  then have "(4::int) dvd int (length img)"
    by (rule dvd_trans [rotated]) simp
  then show ?thesis by presburger
qed

lemma checksum_loop_assembled:
  assumes "assemble_image code = Inr img"
  shows "checksum_loop img 0 0 = Inr (sum_list (le32_words img))"
  using checksum_loop_sum [of img 0 0] assemble_image_dvd4 [OF assms] by simp

lemma boot0_image_Inr:
  assumes "boot0_image code = Inr (out, cs)"
  shows "\<exists>img field. assemble_image code = Inr img \<and> cs = le32_sum img \<and>
           pack_I cs = Inr field \<and> out = set_slice img 12 16 field"
proof (cases "assemble_image code")
  case (Inl e)
  with assms show ?thesis by (simp add: boot0_image_def)
next
  case (Inr img)
  have loop: "checksum_loop img 0 0 = Inr (sum_list (le32_words img))"
    using Inr by (rule checksum_loop_assembled)
  have cs: "sum_list (le32_words img) AND 0xFFFFFFFF = le32_sum img"
    by (simp only: and_mask32 le32_sum_def)
  show ?thesis
    using assms Inr loop cs
    by (auto simp: boot0_image_def Let_def split: sum.splits)
qed

lemma boot0_image_succeeds:
  assumes "aligned_size code < 2 ^ 32"
  shows "\<exists>out cs. boot0_image code = Inr (out, cs)"
proof -
  have "0 \<le> aligned_size code" using aligned_size_pos [of code] by simp
  with assms obtain lf where lf: "pack_I (aligned_size code) = Inr lf"
    using pack_I_Inr_iff by blast
  then obtain l0 l1 l2 l3 where "lf = [l0, l1, l2, l3]" using pack_I_shape by blast
  with lf obtain img where img: "assemble_image code = Inr img"
    by (simp add: assemble_image_def make_header_Inr)
  have loop: "checksum_loop img 0 0 = Inr (sum_list (le32_words img))"
    using img by (rule checksum_loop_assembled)
  have "0 \<le> sum_list (le32_words img) mod 2 ^ 32" "sum_list (le32_words img) mod 2 ^ 32 < 2 ^ 32"
    by simp_all
  then obtain field where "pack_I (sum_list (le32_words img) AND 0xFFFFFFFF) = Inr field"
    unfolding and_mask32 using pack_I_Inr_iff by blast
  then show ?thesis
    using img loop by (simp add: boot0_image_def)
qed

lemma boot0_image_fails:
  assumes "2 ^ 32 \<le> aligned_size code"
  shows "boot0_image code = Inl StructError"
proof -
  have "pack_I (aligned_size code) = Inl StructError"
    using assms by (simp add: pack_I_def)
  then show ?thesis
    by (simp add: boot0_image_def assemble_image_def make_header_Inl)
qed

lemma get_slice_at:
  "length P = i \<Longrightarrow> length S = j - i \<Longrightarrow> get_slice (P @ S @ R) i j = S"
  by (simp add: get_slice_def)

lemma set_slice_at:
  "length P = i \<Longrightarrow> length S = j - i \<Longrightarrow> i \<le> j \<Longrightarrow>
     set_slice (P @ S @ R) i j F = P @ F @ R"
  by (simp add: set_slice_def max_def)

lemma boot0_image_layout:
  assumes "boot0_image code = Inr (out, cs)"
  shows "\<exists>img lf field.
     assemble_image code = Inr img \<and> pack_I (aligned_size code) = Inr lf \<and>
     pack_I cs = Inr field \<and> cs = le32_sum img \<and>
     img = ([0x0A, 0, 0, 0xEA] @ magic) @ [0x39, 0x6C, 0x0A, 0x5F] @ lf @ [32, 0, 0, 0]
           @ replicate 8 0 @ replicate 16 0xFF @ code
           @ replicate (nat (tail_padding code)) 0 \<and>
     out = ([0x0A, 0, 0, 0xEA] @ magic) @ field @ lf @ [32, 0, 0, 0]
           @ replicate 8 0 @ replicate 16 0xFF @ code
           @ replicate (nat (tail_padding code)) 0"
proof -
  from boot0_image_Inr [OF assms] obtain img field where
    img: "assemble_image code = Inr img" and cs: "cs = le32_sum img" and
    field: "pack_I cs = Inr field" and out: "out = set_slice img 12 16 field"
    by blast
  from assemble_image_Inr [OF img] obtain lf where
    lf: "pack_I (aligned_size code) = Inr lf" and
    shape: "img = [0x0A, 0, 0, 0xEA] @ magic @ [0x39, 0x6C, 0x0A, 0x5F] @ lf @ [32, 0, 0, 0]
           @ replicate 8 0 @ replicate 16 0xFF @ code
           @ replicate (nat (tail_padding code)) 0"
    by blast
  have shape': "img = ([0x0A, 0, 0, 0xEA] @ magic) @ [0x39, 0x6C, 0x0A, 0x5F]
           @ (lf @ [32, 0, 0, 0] @ replicate 8 0 @ replicate 16 0xFF @ code
           @ replicate (nat (tail_padding code)) 0)"
    unfolding shape by simp
  have "out = ([0x0A, 0, 0, 0xEA] @ magic) @ field
           @ (lf @ [32, 0, 0, 0] @ replicate 8 0 @ replicate 16 0xFF @ code
           @ replicate (nat (tail_padding code)) 0)"
    unfolding out shape' by (rule set_slice_at) (simp_all add: magic_bytes)
  with img lf field cs shape' show ?thesis by blast
qed

subsection \<open>A worked example: the one-byte input \<open>0x11\<close>\<close>

lemma le32_words_zeros:
  "sum_list (le32_words (replicate (4 * n) 0 @ xs)) = sum_list (le32_words xs)"
proof (induction n)
  case 0
  show ?case by simp
next
  case (Suc n)
  have "replicate (4 * Suc n) (0::byte) = [0, 0, 0, 0] @ replicate (4 * n) 0"
  proof -
    have "replicate (4 * Suc n) (0::byte) = replicate (4 + 4 * n) 0" by simp
    also have "\<dots> = replicate 4 0 @ replicate (4 * n) 0" by (simp only: replicate_add)
    also have "replicate 4 (0::byte) = [0, 0, 0, 0]" by (simp add: numeral_eq_Suc)
    finally show ?thesis .
  qed
  then show ?case using Suc.IH by simp
qed

lemma pack_512: "pack_I 512 = Inr [0, 2, 0, 0]"
  by (simp add: pack_I_def drop_bit_eq_div)

lemma aligned_size_example: "aligned_size [0x11] = 512"
  by (simp add: aligned_size_eq total_size_def CODE_START_OFFSET_def)

lemma assemble_image_example: "assemble_image [0x11] = Inr example_assembled"
proof -
  have r: "replicate 463 (0::byte) = [0, 0, 0] @ replicate 460 0"
  proof -
    have "replicate 463 (0::byte) = replicate (3 + 460) 0" by simp
    also have "\<dots> = replicate 3 0 @ replicate 460 0" by (simp only: replicate_add)
    finally show ?thesis by (simp add: numeral_3_eq_3)
  qed
  have r16: "replicate 16 (0xFF::byte) = [0xFF, 0xFF, 0xFF, 0xFF, 0xFF, 0xFF, 0xFF, 0xFF,
           0xFF, 0xFF, 0xFF, 0xFF, 0xFF, 0xFF, 0xFF, 0xFF]"
    by (simp add: numeral_eq_Suc)
  show ?thesis
    by (simp add: assemble_image_def aligned_size_example make_header_Inr [OF pack_512]
        magic_bytes bytes_mul_def padding_size_def tail_padding_def total_size_def
        CODE_START_OFFSET_def HEADER_SIZE_def r r16)
qed

lemma sum_words_example: "sum_list (le32_words example_assembled) = 24824903683"
proof -
  have "replicate 460 (0::byte) = replicate (4 * 115) 0 @ []" by simp
  then have "sum_list (le32_words (replicate 460 0)) = 0"
    by (simp only: le32_words_zeros) simp
  then show ?thesis by simp
qed

lemma pack_example: "pack_I 0xC7ADF803 = Inr [0x03, 0xF8, 0xAD, 0xC7]"
  by (simp add: pack_I_def drop_bit_eq_div)

lemma boot0_image_example: "boot0_image [0x11] = Inr (example_output, 0xC7ADF803)"
proof -
  have loop: "checksum_loop example_assembled 0 0 = Inr 24824903683"
    using checksum_loop_assembled [OF assemble_image_example]
    by (simp only: sum_words_example)
  have cs: "(24824903683::int) AND 0xFFFFFFFF = 0xC7ADF803"
    by (simp only: and_mask32) simp
  have patch: "set_slice example_assembled 12 16 [0x03, 0xF8, 0xAD, 0xC7] = example_output"
    by (simp add: set_slice_def)
  show ?thesis
    by (simp only: boot0_image_def assemble_image_example sum.case loop Let_def cs
        pack_example patch)
qed

lemma frame_nth:
  "length P = 12 \<Longrightarrow> length F = 4 \<Longrightarrow> length S = 4 \<Longrightarrow> i < 12 \<or> 16 \<le> i \<Longrightarrow>
     (P @ F @ R) ! i = (P @ S @ R) ! i"
  by (auto simp: nth_append)

subsection \<open>Further facts used by the claims\<close>

lemma checksum_loop_partial_word: "checksum_loop [1, 2, 3, 4, 5] 0 0 = Inl StructError"
  by (simp add: checksum_loop.simps [of _ 0] checksum_loop.simps [of _ 4]
      get_slice_def unpack_I_def)

lemma make_boot0_Inr:
  assumes "files w bin_file = Some code" and "fst (make_boot0 bin_file output_file w) = Inr ()"
  shows "\<exists>img cs. boot0_image code = Inr (img, cs) \<and>
           files (snd (make_boot0 bin_file output_file w)) output_file = Some img"
  using assms
  by (auto simp: make_boot0_def write_file_def split: sum.splits option.splits if_splits)

lemma make_boot0_example:
  assumes "files w bin_file = Some [0x11]" and "open_wb w output_file = None"
    and "write_space w output_file = None"
  shows "fst (make_boot0 bin_file output_file w) = Inr () \<and>
         files (snd (make_boot0 bin_file output_file w)) output_file = Some example_output"
  using assms by (simp add: make_boot0_def write_file_def boot0_image_example)

lemma assemble_image_succeeds:
  assumes "aligned_size code < 2 ^ 32"
  shows "\<exists>img. assemble_image code = Inr img"
proof -
  have "0 \<le> aligned_size code" using aligned_size_pos [of code] by simp
  with assms obtain lf where lf: "pack_I (aligned_size code) = Inr lf"
    using pack_I_Inr_iff by blast
  then obtain l0 l1 l2 l3 where "lf = [l0, l1, l2, l3]" using pack_I_shape by blast
  with lf show ?thesis
    by (simp add: assemble_image_def make_header_Inr)
qed

lemma assemble_image_fails:
  assumes "2 ^ 32 \<le> aligned_size code"
  shows "assemble_image code = Inl StructError"
proof -
  have "pack_I (aligned_size code) = Inl StructError"
    using assms by (simp add: pack_I_def)
  then show ?thesis
    by (simp add: assemble_image_def make_header_Inl)
qed

text \<open>The bound on the aligned size, as a bound on the length of the input.\<close>

lemma aligned_size_fits_iff:
  "aligned_size code < 2 ^ 32 \<longleftrightarrow> length code \<le> 4294966736"
proof -
  define x where "x = total_size code + 511"
  define q where "q = x div 512"
  define r where "r = x mod 512"
  have x: "x = 512 * q + r" and r: "0 \<le> r" "r < 512"
    by (simp_all add: q_def r_def)
  have "512 * q < 4294967296 \<longleftrightarrow> x < 4294967296"
  proof
    assume "512 * q < 4294967296"
    then have "q < 8388608" by simp
    then have "q \<le> 8388607" by simp
    with x r show "x < 4294967296" by linarith
  next
    assume "x < 4294967296"
    with x r show "512 * q < 4294967296" by linarith
  qed
  then have "aligned_size code < 2 ^ 32 \<longleftrightarrow> x < 4294967296"
    by (simp add: aligned_size_eq x_def q_def)
  also have "\<dots> \<longleftrightarrow> length code \<le> 4294966736"
    unfolding x_def total_size_def CODE_START_OFFSET_def by auto
  finally show ?thesis .
qed

lemma aligned_size_too_long: "aligned_size (replicate 4294966737 b) = 2 ^ 32"
  by (simp add: aligned_size_eq total_size_def CODE_START_OFFSET_def)

text \<open>
  The pure builder returns an image exactly when the aligned size fits the 32-bit length
  field; otherwise \<open>struct.pack\<close> raises while the header is built.
\<close>

lemma boot0_image_total:
  "(\<exists>out cs. boot0_image code = Inr (out, cs)) \<longleftrightarrow> aligned_size code < 2 ^ 32"
proof
  assume "\<exists>out cs. boot0_image code = Inr (out, cs)"
  then show "aligned_size code < 2 ^ 32"
    using boot0_image_fails [of code] by (cases "aligned_size code < 2 ^ 32") auto
next
  assume "aligned_size code < 2 ^ 32"
  then show "\<exists>out cs. boot0_image code = Inr (out, cs)"
    by (rule boot0_image_succeeds)
qed

text \<open>The length and the layout of what is built, when something is built.\<close>

lemma boot0_image_length:
  assumes "boot0_image code = Inr (out, cs)"
  shows "int (length out) = (0x30 + int (length code) + 511) AND NOT 511 \<and>
         0 < length out \<and> 512 dvd length out"
proof -
  from boot0_image_layout [OF assms] obtain img lf field where
    img: "assemble_image code = Inr img" and
    field: "pack_I cs = Inr field" and lf: "pack_I (aligned_size code) = Inr lf" and
    shape: "img = ([0x0A, 0, 0, 0xEA] @ magic) @ [0x39, 0x6C, 0x0A, 0x5F] @ lf @ [32, 0, 0, 0]
           @ replicate 8 0 @ replicate 16 0xFF @ code
           @ replicate (nat (tail_padding code)) 0" and
    out: "out = ([0x0A, 0, 0, 0xEA] @ magic) @ field @ lf @ [32, 0, 0, 0]
           @ replicate 8 0 @ replicate 16 0xFF @ code
           @ replicate (nat (tail_padding code)) 0"
    by blast
  have "length field = 4" using field by (rule pack_I_length)
  then have "length out = length img" unfolding out shape by simp
  then have len: "int (length out) = aligned_size code"
    using assemble_image_length [OF img] by simp
  have 1: "int (length out) = (0x30 + int (length code) + 511) AND NOT 511"
    unfolding len by (simp only: aligned_size_def total_size_def CODE_START_OFFSET_def)
  have 2: "0 < length out" using len aligned_size_pos [of code] by linarith
  have "512 dvd int (length out)" unfolding len by (rule aligned_size_dvd)
  then have 3: "512 dvd length out" by presburger
  from 1 2 3 show ?thesis by blast
qed

lemma assemble_image_layout:
  assumes "assemble_image code = Inr img"
  shows "\<exists>header. make_header (aligned_size code) = Inr header \<and> length header = 32 \<and>
           img = header @ replicate 16 0xFF @ code
                 @ replicate (nat (aligned_size code - 0x30 - int (length code))) 0 \<and>
           get_slice img 0x20 0x30 = replicate 16 0xFF \<and>
           get_slice img 0x30 (0x30 + length code) = code \<and>
           (\<forall>i. 0x30 + length code \<le> i \<and> i < length img \<longrightarrow> img ! i = 0)"
proof -
  from assemble_image_Inr [OF assms] obtain lf where
    lf: "pack_I (aligned_size code) = Inr lf" and
    shape: "img = [0x0A, 0, 0, 0xEA] @ magic @ [0x39, 0x6C, 0x0A, 0x5F] @ lf @ [32, 0, 0, 0]
           @ replicate 8 0 @ replicate 16 0xFF @ code
           @ replicate (nat (tail_padding code)) 0"
    by blast
  from lf obtain l0 l1 l2 l3 where lf4: "lf = [l0, l1, l2, l3]"
    using pack_I_shape by blast
  define header where
    "header = [0x0A, 0, 0, 0xEA] @ magic @ [0x39, 0x6C, 0x0A, 0x5F] @ lf @ [32, 0, 0, 0]
              @ [0, 0, 0, 0, 0, 0, 0, 0 :: byte]"
  have r8: "replicate 8 (0::byte) = [0, 0, 0, 0, 0, 0, 0, 0]"
    by (simp add: numeral_eq_Suc)
  have hdr: "make_header (aligned_size code) = Inr header"
    using make_header_Inr [OF lf [unfolded lf4]] by (simp add: header_def lf4)
  have hlen: "length header = 32"
    by (simp add: header_def lf4 magic_bytes)
  have tail: "tail_padding code = aligned_size code - 0x30 - int (length code)"
    by (simp add: tail_padding_def total_size_def CODE_START_OFFSET_def)
  have img: "img = header @ replicate 16 0xFF @ code
                 @ replicate (nat (aligned_size code - 0x30 - int (length code))) 0"
    unfolding shape header_def tail r8 by simp
  have pad: "get_slice img 0x20 0x30 = replicate 16 0xFF"
    unfolding img by (rule get_slice_at) (simp_all add: hlen)
  have "img = (header @ replicate 16 0xFF) @ code
                 @ replicate (nat (aligned_size code - 0x30 - int (length code))) 0"
    unfolding img by simp
  then have body: "get_slice img 0x30 (0x30 + length code) = code"
    by (simp only:) (rule get_slice_at, simp_all add: hlen)
  have zeros: "img ! i = 0" if "0x30 + length code \<le> i" "i < length img" for i
  proof -
    have "img = (header @ replicate 16 0xFF @ code)
                 @ replicate (nat (aligned_size code - 0x30 - int (length code))) 0"
      unfolding img by simp
    moreover have "length (header @ replicate 16 0xFF @ code) = 0x30 + length code"
      by (simp add: hlen)
    ultimately show ?thesis
      using that by (simp only: nth_append) simp
  qed
  from hdr hlen img pad body zeros show ?thesis by blast
qed

section \<open>The claims\<close>



text \<open>
  C2. For an input of length \<open>L\<close> whose aligned size \<open>(0x30 + L + 511) & ~511\<close> is
  below \<open>2 ^ 32\<close> (that is, \<open>L\<close> at most 4294966736), an image is produced, and its
  length is \<open>(0x30 + L + 511) & ~511\<close>, a positive multiple of 512.
\<close>

theorem image_length:
  assumes "aligned_size code < 2 ^ 32"
  shows "\<exists>out cs. boot0_image code = Inr (out, cs) \<and>
           int (length out) = (0x30 + int (length code) + 511) AND NOT 511 \<and>
           0 < length out \<and> 512 dvd length out"
proof -
  from boot0_image_succeeds [OF assms] obtain out cs where
    out: "boot0_image code = Inr (out, cs)"
    by blast
  from boot0_image_length [OF out] out show ?thesis
    by blast
qed

theorem image_length_witness:
  "aligned_size [0x11] < 2 ^ 32 \<and>
   boot0_image [0x11] = Inr (example_output, 0xC7ADF803) \<and>
   (0x30 + int (length [0x11 :: byte]) + 511) AND NOT 511 = (512 :: int) \<and>
   length example_output = 512"
proof -
  have h: "aligned_size [0x11] < 2 ^ 32"
    by (simp add: aligned_size_example)
  from image_length [OF h] have "int (length example_output) =
      (0x30 + int (length [0x11 :: byte]) + 511) AND NOT 511"
    by (simp add: boot0_image_example)
  with h boot0_image_example show ?thesis
    by (simp add: and_not_511)
qed

text \<open>
  An input of 4294966737 bytes has the aligned size \<open>2 ^ 32\<close>, which does not fit the
  length field: \<open>struct.pack\<close> raises and no image is produced.
\<close>

theorem image_length_counterexample:
  "boot0_image (replicate 4294966737 0) = Inl StructError"
  by (rule boot0_image_fails) (simp add: aligned_size_too_long)

text \<open>
  C3. For an input whose aligned size is below \<open>2 ^ 32\<close>, an image is assembled
  before the checksum is written back, and it is the 32-byte header, then 16 bytes
  \<open>0xFF\<close> at offsets \<open>0x20\<close> to \<open>0x30\<close>, then the input bytes from offset
  \<open>0x30\<close>, then \<open>aligned_size - 0x30 - L\<close> zero bytes; every byte from offset
  \<open>0x30 + L\<close> to the end is zero.
\<close>

theorem assembled_layout:
  assumes "aligned_size code < 2 ^ 32"
  shows "\<exists>img header. assemble_image code = Inr img \<and>
           make_header (aligned_size code) = Inr header \<and> length header = 32 \<and>
           img = header @ replicate 16 0xFF @ code
                 @ replicate (nat (aligned_size code - 0x30 - int (length code))) 0 \<and>
           get_slice img 0x20 0x30 = replicate 16 0xFF \<and>
           get_slice img 0x30 (0x30 + length code) = code \<and>
           (\<forall>i. 0x30 + length code \<le> i \<and> i < length img \<longrightarrow> img ! i = 0)"
proof -
  from assemble_image_succeeds [OF assms] obtain img where
    img: "assemble_image code = Inr img"
    by blast
  from assemble_image_layout [OF img] img show ?thesis
    by blast
qed

theorem assembled_layout_witness:
  "aligned_size [0x11] < 2 ^ 32 \<and>
   assemble_image [0x11] = Inr example_assembled \<and>
   get_slice example_assembled 0x20 0x30 = replicate 16 0xFF \<and>
   get_slice example_assembled 0x30 (0x30 + length [0x11 :: byte]) = [0x11] \<and>
   example_assembled ! 49 = 0 \<and> example_assembled ! 511 = 0"
proof -
  have h: "aligned_size [0x11] < 2 ^ 32"
    by (simp add: aligned_size_example)
  have len: "length example_assembled = 512" by simp
  from assembled_layout [OF h] obtain img header where
    img: "assemble_image [0x11] = Inr img" and
    pad: "get_slice img 0x20 0x30 = replicate 16 0xFF" and
    body: "get_slice img 0x30 (0x30 + length [0x11 :: byte]) = [0x11]" and
    z: "\<forall>i. 0x30 + length [0x11 :: byte] \<le> i \<and> i < length img \<longrightarrow> img ! i = 0"
    by (elim exE conjE)
  have eq: "img = example_assembled"
    using img by (simp only: assemble_image_example sum.inject)
  have z49: "example_assembled ! 49 = 0" and z511: "example_assembled ! 511 = 0"
    using z unfolding eq len by simp_all
  from h assemble_image_example pad body z49 z511 show ?thesis
    unfolding eq by (simp only: simp_thms)
qed

text \<open>
  For an input of 4294966737 bytes nothing is assembled: the header cannot hold the
  aligned size \<open>2 ^ 32\<close>, and \<open>struct.pack\<close> raises.
\<close>

theorem assembled_layout_counterexample:
  "assemble_image (replicate 4294966737 0) = Inl StructError"
  by (rule assemble_image_fails) (simp add: aligned_size_too_long)





text \<open>
  C6. The checksum loop is safe: the assembled image has a length that is a multiple of
  512 and so of 4, every get_slice \<open>image[i:i+4]\<close> at an index \<open>i\<close> that the loop
  visits (a multiple of 4 below the length) lies within the image and has four bytes,
  its decoding does not fail, and the loop returns a sum.
\<close>

theorem checksum_loop_safe:
  assumes "assemble_image code = Inr img"
  shows "512 dvd length img \<and> 4 dvd length img \<and>
         (\<forall>i. i < length img \<and> 4 dvd i \<longrightarrow>
              i + 4 \<le> length img \<and> length (get_slice img i (i + 4)) = 4 \<and>
              (\<exists>w. unpack_I (get_slice img i (i + 4)) = Inr w)) \<and>
         (\<exists>s. checksum_loop img 0 0 = Inr s)"
proof -
  have "512 dvd int (length img)"
    using assemble_image_length [OF assms] aligned_size_dvd [of code] by simp
  then have d512: "512 dvd length img" by presburger
  have d4: "4 dvd length img" using assms by (rule assemble_image_dvd4)
  have words: "i + 4 \<le> length img \<and> length (get_slice img i (i + 4)) = 4 \<and>
              (\<exists>w. unpack_I (get_slice img i (i + 4)) = Inr w)"
    if "i < length img" "4 dvd i" for i
  proof -
    have le: "i + 4 \<le> length img" using that d4 by presburger
    then have "length (get_slice img i (i + 4)) = 4" by (simp add: get_slice_def)
    moreover have "\<exists>w. unpack_I (get_slice img i (i + 4)) = Inr w"
      using le32_words_step [OF le] by blast
    ultimately show ?thesis using le by blast
  qed
  have "\<exists>s. checksum_loop img 0 0 = Inr s"
    using checksum_loop_assembled [OF assms] by blast
  with d512 d4 words show ?thesis by blast
qed

theorem checksum_loop_safe_witness:
  "assemble_image [0x11] = Inr example_assembled \<and>
   4 dvd length example_assembled \<and>
   (\<exists>w. unpack_I (get_slice example_assembled 508 (508 + 4)) = Inr w) \<and>
   (\<exists>s. checksum_loop example_assembled 0 0 = Inr s)"
proof -
  have len: "length example_assembled = 512" by simp
  note safe = checksum_loop_safe [OF assemble_image_example]
  note d = safe [THEN conjunct2, THEN conjunct1]
  note w = safe [THEN conjunct2, THEN conjunct2, THEN conjunct1, THEN spec, of 508]
  note s = safe [THEN conjunct2, THEN conjunct2, THEN conjunct2]
  have pre: "(508::nat) < length example_assembled \<and> 4 dvd (508::nat)"
    unfolding len by simp
  have "\<exists>w. unpack_I (get_slice example_assembled 508 (508 + 4)) = Inr w"
    by (rule w [THEN mp, OF pre, THEN conjunct2, THEN conjunct2])
  with d s assemble_image_example show ?thesis by (simp only: simp_thms)
qed

text \<open>
  C7. Writing the checksum back is the only change to the assembled image: the output
  has the same length and differs from the assembled image at most in bytes 12 to 16.
\<close>

theorem patch_frame:
  assumes "assemble_image code = Inr img" and "boot0_image code = Inr (out, cs)"
  shows "length out = length img \<and>
         get_slice out 0 12 = get_slice img 0 12 \<and>
         get_slice out 16 (length out) = get_slice img 16 (length img) \<and>
         (\<forall>i. i < length img \<and> (i < 12 \<or> 16 \<le> i) \<longrightarrow> out ! i = img ! i)"
proof -
  from boot0_image_layout [OF assms(2)] obtain img' lf field where
    img': "assemble_image code = Inr img'" and
    field: "pack_I cs = Inr field" and
    shape: "img' = ([0x0A, 0, 0, 0xEA] @ magic) @ [0x39, 0x6C, 0x0A, 0x5F] @ lf @ [32, 0, 0, 0]
           @ replicate 8 0 @ replicate 16 0xFF @ code
           @ replicate (nat (tail_padding code)) 0" and
    out: "out = ([0x0A, 0, 0, 0xEA] @ magic) @ field @ lf @ [32, 0, 0, 0]
           @ replicate 8 0 @ replicate 16 0xFF @ code
           @ replicate (nat (tail_padding code)) 0"
    by blast
  define P where "P = [0x0A, 0, 0, 0xEA] @ magic"
  define S where "S = [0x39, 0x6C, 0x0A, 0x5F :: byte]"
  define R where "R = lf @ [32, 0, 0, 0] @ replicate 8 0 @ replicate 16 0xFF @ code
           @ replicate (nat (tail_padding code)) 0"
  have img: "img = P @ S @ R"
    using assms(1) img' shape by (simp add: P_def S_def R_def)
  have out': "out = P @ field @ R"
    using out by (simp add: P_def R_def)
  have P: "length P = 12" by (simp add: P_def magic_bytes)
  have S: "length S = 4" by (simp add: S_def)
  have F: "length field = 4" using field by (rule pack_I_length)
  have 1: "length out = length img"
    unfolding img out' by (simp add: S F)
  have 2: "get_slice out 0 12 = get_slice img 0 12"
    unfolding img out' by (simp add: get_slice_def P)
  have 3: "get_slice out 16 (length out) = get_slice img 16 (length img)"
    unfolding img out' by (simp add: get_slice_def P S F)
  have 4: "out ! i = img ! i" if "i < 12 \<or> 16 \<le> i" for i
    unfolding img out' using P F S that by (rule frame_nth)
  from 1 2 3 4 show ?thesis by blast
qed

theorem patch_frame_witness:
  "assemble_image [0x11] = Inr example_assembled \<and>
   boot0_image [0x11] = Inr (example_output, 0xC7ADF803) \<and>
   length example_output = length example_assembled \<and>
   get_slice example_output 0 12 = get_slice example_assembled 0 12 \<and>
   example_output ! 48 = example_assembled ! 48 \<and>
   example_output ! 12 \<noteq> example_assembled ! 12"
proof -
  have len: "length example_assembled = 512" by simp
  note frame = patch_frame [OF assemble_image_example boot0_image_example]
  note 1 = frame [THEN conjunct1]
  note 2 = frame [THEN conjunct2, THEN conjunct1]
  note 4 = frame [THEN conjunct2, THEN conjunct2, THEN conjunct2, THEN spec, of 48]
  have pre: "(48::nat) < length example_assembled \<and> ((48::nat) < 12 \<or> 16 \<le> (48::nat))"
    unfolding len by simp
  have 5: "example_output ! 48 = example_assembled ! 48"
    by (rule 4 [THEN mp, OF pre])
  have 6: "example_output ! 12 \<noteq> example_assembled ! 12" by simp
  from 1 2 5 6 assemble_image_example boot0_image_example show ?thesis
    by (simp only: simp_thms)
qed



text \<open>
  C10. On a usage error (a number of positional arguments other than two) the exit
  status is exactly 1, provided that standard output can be flushed when the
  interpreter exits.
\<close>

theorem usage_exit_status:
  assumes "length args \<noteq> 2" and "stdout_flushes w"
  shows "exit_status w (main prog args w) = 1"
  using assms by (simp add: main_def exit_status_def)

theorem usage_exit_status_witness:
  "length ([] :: string list) \<noteq> 2 \<and>
   stdout_flushes \<lparr>files = Map.empty, open_wb = (\<lambda>p. None), write_space = (\<lambda>p. None),
     stdout = [], stdout_flushes = True\<rparr> \<and>
   exit_status
     \<lparr>files = Map.empty, open_wb = (\<lambda>p. None), write_space = (\<lambda>p. None),
       stdout = [], stdout_flushes = True\<rparr>
     (main ''mkboot.py'' []
       \<lparr>files = Map.empty, open_wb = (\<lambda>p. None), write_space = (\<lambda>p. None),
         stdout = [], stdout_flushes = True\<rparr>) = 1"
proof -
  have h: "length ([] :: string list) \<noteq> 2" by simp
  have f: "stdout_flushes \<lparr>files = Map.empty, open_wb = (\<lambda>p. None),
     write_space = (\<lambda>p. None), stdout = [], stdout_flushes = True\<rparr>"
    by simp
  from usage_exit_status [OF h f] h f show ?thesis
    by (simp only: simp_thms)
qed

text \<open>
  When the usage message cannot be flushed, as with standard output on a closed pipe or
  a full device, the interpreter ends with status 120 and not with the 1 the script
  asked for.
\<close>

theorem usage_exit_status_counterexample:
  "length ([] :: string list) \<noteq> 2 \<and>
   exit_status
     \<lparr>files = Map.empty, open_wb = (\<lambda>p. None), write_space = (\<lambda>p. None),
       stdout = [], stdout_flushes = False\<rparr>
     (main ''mkboot.py'' []
       \<lparr>files = Map.empty, open_wb = (\<lambda>p. None), write_space = (\<lambda>p. None),
         stdout = [], stdout_flushes = False\<rparr>) = 120"
  by (simp add: main_def exit_status_def usage_def)

text \<open>
  C9. The builder is deterministic: two successful runs on inputs with the same bytes
  write the same bytes, whatever the file names, the other files and the earlier output
  are; the bytes written are those of \<open>boot0_image\<close> on the input.
\<close>

theorem deterministic:
  assumes "files w1 in1 = Some code" and "files w2 in2 = Some code"
    and "fst (make_boot0 in1 out1 w1) = Inr ()" and "fst (make_boot0 in2 out2 w2) = Inr ()"
  shows "files (snd (make_boot0 in1 out1 w1)) out1 = files (snd (make_boot0 in2 out2 w2)) out2 \<and>
         (\<exists>img cs. boot0_image code = Inr (img, cs) \<and>
                   files (snd (make_boot0 in1 out1 w1)) out1 = Some img)"
proof -
  from make_boot0_Inr [OF assms(1) assms(3)] obtain img cs where
    1: "boot0_image code = Inr (img, cs)"
       "files (snd (make_boot0 in1 out1 w1)) out1 = Some img"
    by blast
  from make_boot0_Inr [OF assms(2) assms(4)] obtain img' cs' where
    2: "boot0_image code = Inr (img', cs')"
       "files (snd (make_boot0 in2 out2 w2)) out2 = Some img'"
    by blast
  from 1 2 have "img' = img" by simp
  with 1 2 show ?thesis by simp
qed

theorem deterministic_witness:
  "files \<lparr>files = [''a.bin'' \<mapsto> [0x11]], open_wb = (\<lambda>p. None), write_space = (\<lambda>p. None),
      stdout = [], stdout_flushes = True\<rparr> ''a.bin''
     = Some [0x11] \<and>
   files \<lparr>files = [''x'' \<mapsto> [0x11]], open_wb = (\<lambda>p. if p = ''y'' then None else Some PermissionError),
      write_space = (\<lambda>p. Some 512), stdout = [''earlier''], stdout_flushes = False\<rparr> ''x''
     = Some [0x11] \<and>
   fst (make_boot0 ''a.bin'' ''a.img''
     \<lparr>files = [''a.bin'' \<mapsto> [0x11]], open_wb = (\<lambda>p. None), write_space = (\<lambda>p. None),
      stdout = [], stdout_flushes = True\<rparr>) = Inr () \<and>
   fst (make_boot0 ''x'' ''y''
     \<lparr>files = [''x'' \<mapsto> [0x11]], open_wb = (\<lambda>p. if p = ''y'' then None else Some PermissionError),
      write_space = (\<lambda>p. Some 512), stdout = [''earlier''], stdout_flushes = False\<rparr>) = Inr () \<and>
   files (snd (make_boot0 ''a.bin'' ''a.img''
     \<lparr>files = [''a.bin'' \<mapsto> [0x11]], open_wb = (\<lambda>p. None), write_space = (\<lambda>p. None),
      stdout = [], stdout_flushes = True\<rparr>)) ''a.img'' =
   files (snd (make_boot0 ''x'' ''y''
     \<lparr>files = [''x'' \<mapsto> [0x11]], open_wb = (\<lambda>p. if p = ''y'' then None else Some PermissionError),
      write_space = (\<lambda>p. Some 512), stdout = [''earlier''], stdout_flushes = False\<rparr>)) ''y''"
proof -
  define w1 where "w1 = \<lparr>files = [''a.bin'' \<mapsto> [0x11 :: byte]], open_wb = (\<lambda>p. None), write_space = (\<lambda>p. None),
      stdout = [], stdout_flushes = True\<rparr>"
  define w2 where "w2 = \<lparr>files = [''x'' \<mapsto> [0x11 :: byte]], open_wb = (\<lambda>p. if p = ''y'' then None else Some PermissionError),
      write_space = (\<lambda>p. Some 512), stdout = [''earlier''], stdout_flushes = False\<rparr>"
  have f1: "files w1 ''a.bin'' = Some [0x11]" by (simp add: w1_def)
  have f2: "files w2 ''x'' = Some [0x11]" by (simp add: w2_def)
  have r1: "fst (make_boot0 ''a.bin'' ''a.img'' w1) = Inr ()"
    using make_boot0_example [OF f1, of "''a.img''"] by (simp add: w1_def)
  have r2: "fst (make_boot0 ''x'' ''y'' w2) = Inr ()"
    by (simp add: make_boot0_def write_file_def boot0_image_example w2_def)
  from deterministic [OF f1 f2 r1 r2] f1 f2 r1 r2 show ?thesis
    unfolding w1_def w2_def by (simp only: simp_thms)
qed

end
